theory Spec2Isabelle
  imports Complex_Main
begin

section \<open>Data model\<close>

text \<open>
  The engine computes on Python floats. The embedding reads every number as an exact real:
  rounding, infinities and NaN are outside the model. The sentinel \<open>float('inf')\<close> of the
  search loops is the value \<open>None\<close> of an option (no candidate yet).
\<close>

text \<open>\<^verbatim>\<open>class UrunData\<close> (src/src/models/product.py).\<close>

record UrunData =
  urun_id :: nat
  urun_kodu :: string
  boy :: real
  en :: real
  yukseklik :: real
  agirlik :: real
  quantity :: int
  is_package :: bool
  donus_serbest :: bool
  mukavemet :: real

text \<open>\<^verbatim>\<open>class PaletConfig\<close> (src/src/models/container.py): length, width, height, max_weight.\<close>

record PaletConfig =
  cfg_length :: real
  cfg_width :: real
  cfg_height :: real
  max_weight :: real

text \<open>
  \<^verbatim>\<open>class FreeRectangle\<close> (src/src/core/packing.py). The attribute \<open>volume\<close> is set once
  by the constructor to \<open>length * width * height\<close> and never written again, so it is a
  function of the other fields.
\<close>

record FreeRectangle =
  rect_x :: real
  rect_y :: real
  rect_z :: real
  rect_length :: real
  rect_width :: real
  rect_height :: real

definition volume :: "FreeRectangle \<Rightarrow> real" where
  "volume rect = rect_length rect * rect_width rect * rect_height rect"

definition can_fit :: "FreeRectangle \<Rightarrow> real \<Rightarrow> real \<Rightarrow> real \<Rightarrow> bool" where
  "can_fit rect item_l item_w item_h \<longleftrightarrow>
     rect_length rect \<ge> item_l \<and> rect_width rect \<ge> item_w \<and> rect_height rect \<ge> item_h"

text \<open>An orientation is the triple \<open>(L, W, H)\<close>.\<close>

type_synonym dims = "real \<times> real \<times> real"

text \<open>The dict appended to \<open>current_pallet['items']\<close>: keys urun, x, y, z, L, W, H.\<close>

record placement =
  urun :: UrunData
  item_x :: real
  item_y :: real
  item_z :: real
  item_L :: real
  item_W :: real
  item_H :: real

text \<open>
  A returned pallet is the dict with keys items and weight; the pallet being filled has
  the key free_rects as well.
\<close>

record pallet =
  items :: "placement list"
  weight :: real

record open_pallet = pallet +
  free_rects :: "FreeRectangle list"

datatype py_error = IndexError

subsection \<open>Orientations\<close>

text \<open>
  Modelled from the spec: \<open>possible_orientations_for\<close> lives in src/utils/helpers.py, which
  is not among the sources. Section 4.2 of the specification: the base triple
  \<open>(length, width, height)\<close> is always first; if the product is rotatable horizontally the
  swap \<open>(width, length, height)\<close> is added when distinct. The packer below takes the
  orientation function as a parameter; this definition is the instance used on concrete
  inputs.
\<close>

definition possible_orientations_for :: "UrunData \<Rightarrow> dims list" where
  "possible_orientations_for u =
     (if donus_serbest u \<and> boy u \<noteq> en u
      then [(boy u, en u, yukseklik u), (en u, boy u, yukseklik u)]
      else [(boy u, en u, yukseklik u)])"

section \<open>Geometry\<close>

definition intersects_3d ::
  "FreeRectangle \<Rightarrow> real \<Rightarrow> real \<Rightarrow> real \<Rightarrow> real \<Rightarrow> real \<Rightarrow> real \<Rightarrow> bool" where
  "intersects_3d rect placed_x placed_y placed_z placed_l placed_w placed_h \<longleftrightarrow>
     \<not> (rect_x rect \<ge> placed_x + placed_l \<or>
        placed_x \<ge> rect_x rect + rect_length rect \<or>
        rect_y rect \<ge> placed_y + placed_w \<or>
        placed_y \<ge> rect_y rect + rect_width rect \<or>
        rect_z rect \<ge> placed_z + placed_h \<or>
        placed_z \<ge> rect_z rect + rect_height rect)"

definition split_rectangle_maximal ::
  "FreeRectangle \<Rightarrow> real \<Rightarrow> real \<Rightarrow> real \<Rightarrow> real \<Rightarrow> real \<Rightarrow> real \<Rightarrow> FreeRectangle list" where
  "split_rectangle_maximal rect placed_x placed_y placed_z placed_l placed_w placed_h =
     (if rect_x rect < placed_x
      then [\<lparr>rect_x = rect_x rect, rect_y = rect_y rect, rect_z = rect_z rect,
             rect_length = placed_x - rect_x rect,
             rect_width = rect_width rect,
             rect_height = rect_height rect\<rparr>]
      else []) @
     (if placed_x + placed_l < rect_x rect + rect_length rect
      then [\<lparr>rect_x = placed_x + placed_l, rect_y = rect_y rect, rect_z = rect_z rect,
             rect_length = (rect_x rect + rect_length rect) - (placed_x + placed_l),
             rect_width = rect_width rect,
             rect_height = rect_height rect\<rparr>]
      else []) @
     (if rect_y rect < placed_y
      then [\<lparr>rect_x = rect_x rect, rect_y = rect_y rect, rect_z = rect_z rect,
             rect_length = rect_length rect,
             rect_width = placed_y - rect_y rect,
             rect_height = rect_height rect\<rparr>]
      else []) @
     (if placed_y + placed_w < rect_y rect + rect_width rect
      then [\<lparr>rect_x = rect_x rect, rect_y = placed_y + placed_w, rect_z = rect_z rect,
             rect_length = rect_length rect,
             rect_width = (rect_y rect + rect_width rect) - (placed_y + placed_w),
             rect_height = rect_height rect\<rparr>]
      else []) @
     (if rect_z rect < placed_z
      then [\<lparr>rect_x = rect_x rect, rect_y = rect_y rect, rect_z = rect_z rect,
             rect_length = rect_length rect,
             rect_width = rect_width rect,
             rect_height = placed_z - rect_z rect\<rparr>]
      else []) @
     (if placed_z + placed_h < rect_z rect + rect_height rect
      then [\<lparr>rect_x = rect_x rect, rect_y = rect_y rect, rect_z = placed_z + placed_h,
             rect_length = rect_length rect,
             rect_width = rect_width rect,
             rect_height = (rect_z rect + rect_height rect) - (placed_z + placed_h)\<rparr>]
      else [])"

section \<open>Best short side fit for one orientation\<close>

text \<open>
  \<open>find_best_rectangle\<close>: the loop state is \<open>(min_short_side_residual, best_rect)\<close>, with
  \<open>None\<close> for the initial \<open>(inf, None)\<close>.
\<close>

definition find_best_step ::
  "real \<Rightarrow> real \<Rightarrow> real \<Rightarrow> FreeRectangle \<Rightarrow> (real \<times> FreeRectangle) option
     \<Rightarrow> (real \<times> FreeRectangle) option" where
  "find_best_step item_l item_w item_h rect st =
     (if can_fit rect item_l item_w item_h then
        (let residual_l = rect_length rect - item_l;
             residual_w = rect_width rect - item_w;
             short_side_residual = min residual_l residual_w
         in case st of
              None \<Rightarrow> Some (short_side_residual, rect)
            | Some (min_short_side_residual, best_rect) \<Rightarrow>
                if short_side_residual < min_short_side_residual
                then Some (short_side_residual, rect)
                else if short_side_residual = min_short_side_residual
                then (let current_vol_diff = volume rect - (item_l * item_w * item_h);
                          best_vol_diff = volume best_rect - (item_l * item_w * item_h)
                      in if current_vol_diff < best_vol_diff
                         then Some (min_short_side_residual, rect)
                         else st)
                else st)
      else st)"


section \<open>Pruning\<close>

text \<open>The test of the inner loop of \<open>remove_redundant_rectangles\<close>: rect1 lies in rect2.\<close>

definition inside :: "FreeRectangle \<Rightarrow> FreeRectangle \<Rightarrow> bool" where
  "inside rect1 rect2 \<longleftrightarrow>
     rect_x rect2 \<le> rect_x rect1 \<and>
     rect_y rect2 \<le> rect_y rect1 \<and>
     rect_z rect2 \<le> rect_z rect1 \<and>
     rect_x rect2 + rect_length rect2 \<ge> rect_x rect1 + rect_length rect1 \<and>
     rect_y rect2 + rect_width rect2 \<ge> rect_y rect1 + rect_width rect1 \<and>
     rect_z rect2 + rect_height rect2 \<ge> rect_z rect1 + rect_height rect1"

definition is_contained :: "FreeRectangle list \<Rightarrow> nat \<Rightarrow> FreeRectangle \<Rightarrow> bool" where
  "is_contained rects i rect1 \<longleftrightarrow>
     list_ex (\<lambda>(j, rect2). i \<noteq> j \<and> inside rect1 rect2) (enumerate 0 rects)"

definition remove_redundant_rectangles :: "FreeRectangle list \<Rightarrow> FreeRectangle list" where
  "remove_redundant_rectangles rects =
     map snd (filter (\<lambda>(i, rect1). \<not> is_contained rects i rect1) (enumerate 0 rects))"

section \<open>The packer\<close>

text \<open>The fresh pallet dict that \<open>pack_maximal_rectangles\<close> builds in three places.\<close>

definition new_pallet :: "PaletConfig \<Rightarrow> open_pallet" where
  "new_pallet palet_cfg =
     \<lparr>items = [], weight = 0,
      free_rects = [\<lparr>rect_x = 0, rect_y = 0, rect_z = 0,
                     rect_length = cfg_length palet_cfg,
                     rect_width = cfg_width palet_cfg,
                     rect_height = cfg_height palet_cfg\<rparr>]\<rparr>"

text \<open>\<open>if current_pallet['items']: pallets.append({items, weight})\<close>.\<close>

definition emit :: "pallet list \<Rightarrow> open_pallet \<Rightarrow> pallet list" where
  "emit pallets current_pallet =
     (if items current_pallet \<noteq> []
      then pallets @ [\<lparr>items = items current_pallet, weight = weight current_pallet\<rparr>]
      else pallets)"

text \<open>
  The body of the two search loops. The state is \<open>(min_short_side, best_rect,
  best_orientation)\<close>, \<open>None\<close> for \<open>(inf, None, None)\<close>.
\<close>

type_synonym best = "(real \<times> FreeRectangle \<times> dims) option"

definition try_fit :: "dims \<Rightarrow> FreeRectangle \<Rightarrow> best \<Rightarrow> best" where
  "try_fit d rect st =
     (case d of (item_l, item_w, item_h) \<Rightarrow>
        if can_fit rect item_l item_w item_h then
          (let residual_l = rect_length rect - item_l;
               residual_w = rect_width rect - item_w;
               short_side = min residual_l residual_w
           in case st of
                None \<Rightarrow> Some (short_side, rect, (item_l, item_w, item_h))
              | Some (min_short_side, best_rect, best_orientation) \<Rightarrow>
                  if short_side < min_short_side
                  then Some (short_side, rect, (item_l, item_w, item_h))
                  else st)
        else st)"

text \<open>Auto-orientation: all orientations, and for each all free rects of the pallet.\<close>

definition search_orientations :: "dims list \<Rightarrow> FreeRectangle list \<Rightarrow> best" where
  "search_orientations orientations rects =
     fold (\<lambda>d st. fold (try_fit d) rects st) orientations None"

text \<open>The search on a new pallet: all orientations against \<open>free_rects[0]\<close>.\<close>

definition search_new_pallet :: "dims list \<Rightarrow> FreeRectangle \<Rightarrow> best" where
  "search_new_pallet orientations rect = fold (\<lambda>d st. try_fit d rect st) orientations None"

text \<open>The splitting loop over \<open>current_pallet['free_rects']\<close> that builds \<open>new_free_rects\<close>.\<close>

definition split_free_rects ::
  "FreeRectangle list \<Rightarrow> real \<Rightarrow> real \<Rightarrow> real \<Rightarrow> real \<Rightarrow> real \<Rightarrow> real \<Rightarrow> FreeRectangle list" where
  "split_free_rects rects placed_x placed_y placed_z u_l u_w u_h =
     concat (map (\<lambda>rect.
        if intersects_3d rect placed_x placed_y placed_z u_l u_w u_h
        then split_rectangle_maximal rect placed_x placed_y placed_z u_l u_w u_h
        else [rect]) rects)"

text \<open>Placing the product: append the placement, add the weight, split, prune.\<close>

definition place :: "open_pallet \<Rightarrow> UrunData \<Rightarrow> FreeRectangle \<Rightarrow> dims \<Rightarrow> open_pallet" where
  "place current_pallet u best_rect best_orientation =
     (case best_orientation of (u_l, u_w, u_h) \<Rightarrow>
        (let placed_x = rect_x best_rect;
             placed_y = rect_y best_rect;
             placed_z = rect_z best_rect
         in \<lparr>items = items current_pallet @
                 [\<lparr>urun = u, item_x = placed_x, item_y = placed_y, item_z = placed_z,
                   item_L = u_l, item_W = u_w, item_H = u_h\<rparr>],
              weight = weight current_pallet + agirlik u,
              free_rects = remove_redundant_rectangles
                 (split_free_rects (free_rects current_pallet)
                    placed_x placed_y placed_z u_l u_w u_h)\<rparr>))"

text \<open>
  One iteration of the main loop. The state is \<open>(pallets, current_pallet)\<close>. Indexing
  \<open>orientations[0]\<close> on an empty list raises IndexError.
\<close>

definition pack_item ::
  "(UrunData \<Rightarrow> dims list) \<Rightarrow> PaletConfig \<Rightarrow> pallet list \<times> open_pallet \<Rightarrow> UrunData
     \<Rightarrow> py_error + pallet list \<times> open_pallet" where
  "pack_item orients palet_cfg st u =
     (case st of (pallets, current_pallet) \<Rightarrow>
        (let (pallets1, current1) =
               (if weight current_pallet + agirlik u > max_weight palet_cfg
                then (emit pallets current_pallet, new_pallet palet_cfg)
                else (pallets, current_pallet));
             orientations = orients u
         in case search_orientations orientations (free_rects current1) of
              Some (min_short_side, best_rect, best_orientation) \<Rightarrow>
                Inr (pallets1, place current1 u best_rect best_orientation)
            | None \<Rightarrow>
                (let pallets2 = emit pallets1 current1;
                     current2 = new_pallet palet_cfg
                 in case free_rects current2 of
                      [] \<Rightarrow> Inl IndexError
                    | rect0 # _ \<Rightarrow>
                        (case search_new_pallet orientations rect0 of
                           Some (min_short_side, best_rect, best_orientation) \<Rightarrow>
                             Inr (pallets2, place current2 u best_rect best_orientation)
                         | None \<Rightarrow>
                             (case orientations of
                                [] \<Rightarrow> Inl IndexError
                              | d0 # _ \<Rightarrow> Inr (pallets2, place current2 u rect0 d0))))))"

fun pack_loop ::
  "(UrunData \<Rightarrow> dims list) \<Rightarrow> PaletConfig \<Rightarrow> pallet list \<times> open_pallet \<Rightarrow> UrunData list
     \<Rightarrow> py_error + pallet list \<times> open_pallet" where
  "pack_loop orients palet_cfg st [] = Inr st"
| "pack_loop orients palet_cfg st (u # urunler) =
     (case pack_item orients palet_cfg st u of
        Inl e \<Rightarrow> Inl e
      | Inr st' \<Rightarrow> pack_loop orients palet_cfg st' urunler)"

definition pack_maximal_rectangles ::
  "(UrunData \<Rightarrow> dims list) \<Rightarrow> UrunData list \<Rightarrow> PaletConfig \<Rightarrow> py_error + pallet list" where
  "pack_maximal_rectangles orients urunler palet_cfg =
     (case pack_loop orients palet_cfg ([], new_pallet palet_cfg) urunler of
        Inl e \<Rightarrow> Inl e
      | Inr (pallets, current_pallet) \<Rightarrow> Inr (emit pallets current_pallet))"

section \<open>Properties\<close>

subsection \<open>Candidates of the search\<close>

text \<open>
  A candidate is a pair of an orientation and a free rect. \<open>fits\<close> is the filter of the
  search, \<open>short_side\<close> its score. \<open>first_best ps i\<close>: in the list \<open>ps\<close> of candidates,
  taken in the order the loops visit them, the candidate at position \<open>i\<close> fits, no
  fitting candidate has a smaller score, and every fitting candidate before it has a
  strictly greater score.
\<close>

definition fits :: "dims \<times> FreeRectangle \<Rightarrow> bool" where
  "fits p = (case p of ((item_l, item_w, item_h), rect) \<Rightarrow> can_fit rect item_l item_w item_h)"

definition short_side :: "dims \<times> FreeRectangle \<Rightarrow> real" where
  "short_side p = (case p of ((item_l, item_w, item_h), rect) \<Rightarrow>
     min (rect_length rect - item_l) (rect_width rect - item_w))"

definition first_best :: "(dims \<times> FreeRectangle) list \<Rightarrow> nat \<Rightarrow> bool" where
  "first_best ps i \<longleftrightarrow>
     i < length ps \<and> fits (ps ! i) \<and>
     (\<forall>j < length ps. fits (ps ! j) \<longrightarrow> short_side (ps ! i) \<le> short_side (ps ! j)) \<and>
     (\<forall>j < i. fits (ps ! j) \<longrightarrow> short_side (ps ! i) < short_side (ps ! j))"

text \<open>An orientation fits the single free rect of a new pallet.\<close>

definition fits_empty_pallet :: "PaletConfig \<Rightarrow> dims \<Rightarrow> bool" where
  "fits_empty_pallet palet_cfg d \<longleftrightarrow>
     fst d \<le> cfg_length palet_cfg \<and> fst (snd d) \<le> cfg_width palet_cfg \<and>
     snd (snd d) \<le> cfg_height palet_cfg"

subsection \<open>Results\<close>


definition placed_products :: "pallet list \<Rightarrow> UrunData list" where
  "placed_products pallets = map urun (concat (map items pallets))"






subsection \<open>Loop invariants\<close>








subsection \<open>The residuals of a split, as the specification lists them\<close>



subsection \<open>Concrete inputs\<close>

text \<open>
  \<open>UrunData.__init__\<close> with its defaults: quantity 1, not a package, rotatable, strength
  99999.
\<close>

definition UrunData_init :: "nat \<Rightarrow> string \<Rightarrow> real \<Rightarrow> real \<Rightarrow> real \<Rightarrow> real \<Rightarrow> UrunData" where
  "UrunData_init i code b e y a =
     \<lparr>urun_id = i, urun_kodu = code, boy = b, en = e, yukseklik = y, agirlik = a,
      quantity = 1, is_package = False, donus_serbest = True, mukavemet = 99999\<rparr>"


definition Box :: "UrunData \<Rightarrow> real \<Rightarrow> real \<Rightarrow> real \<Rightarrow> real \<Rightarrow> real \<Rightarrow> real \<Rightarrow> placement" where
  "Box u x y z l w h =
     \<lparr>urun = u, item_x = x, item_y = y, item_z = z, item_L = l, item_W = w, item_H = h\<rparr>"

text \<open>A 12 x 10 x 10 pallet and two products that share it.\<close>

definition cfg_a :: PaletConfig where
  "cfg_a = \<lparr>cfg_length = 12, cfg_width = 10, cfg_height = 10, max_weight = 1000\<rparr>"

definition cube5 :: UrunData where
  "cube5 = UrunData_init 1 ''K5'' 5 5 5 1"

definition bar7 :: UrunData where
  "bar7 = UrunData_init 2 ''B7'' 7 5 5 1"

definition pallet_a :: pallet where
  "pallet_a = \<lparr>items = [Box cube5 0 0 0 5 5 5, Box bar7 5 0 0 7 5 5], weight = 2\<rparr>"


text \<open>
  Scenario S4 of the specification: a 100 x 100 x 100 pallet with a 1000 kg cap and a
  120 x 50 x 50 product; and a product of 2000 kg.
\<close>

definition cfg_b :: PaletConfig where
  "cfg_b = \<lparr>cfg_length = 100, cfg_width = 100, cfg_height = 100, max_weight = 1000\<rparr>"

definition long120 :: UrunData where
  "long120 = UrunData_init 3 ''L120'' 120 50 50 10"








section \<open>Lemmas\<close>

subsection \<open>The search\<close>

text \<open>The nested loops visit the pairs of an orientation and a rect in the order of \<open>List.product\<close>.\<close>

lemma search_orientations_product:
  "fold (\<lambda>d st. fold (try_fit d) rects st) orientations st =
   fold (\<lambda>(d, rect). try_fit d rect) (List.product orientations rects) st"
  by (induction orientations arbitrary: st) (simp_all add: fold_map comp_def)

lemma try_fit_None:
  "try_fit d rect None = (if fits (d, rect) then Some (short_side (d, rect), rect, d) else None)"
  by (cases d) (simp add: try_fit_def fits_def short_side_def)

lemma try_fit_Some:
  "try_fit d rect (Some (m, b, bd)) =
     (if fits (d, rect) \<and> short_side (d, rect) < m then Some (short_side (d, rect), rect, d)
      else Some (m, b, bd))"
  by (cases d) (simp add: try_fit_def fits_def short_side_def)

text \<open>After any list of candidates the state holds the first candidate of least score.\<close>

lemma fold_try_fit_char:
  "(case fold (\<lambda>(d, rect). try_fit d rect) ps None of
      None \<Rightarrow> \<forall>p \<in> set ps. \<not> fits p
    | Some (m, rect, d) \<Rightarrow>
        \<exists>i. first_best ps i \<and> ps ! i = (d, rect) \<and> m = short_side (d, rect))"
proof (induction ps rule: rev_induct)
  case Nil
  show ?case by simp
next
  case (snoc p ps)
  obtain d rect where p: "p = (d, rect)" by (cases p)
  show ?case
  proof (cases "fold (\<lambda>(d, rect). try_fit d rect) ps None")
    case None
    with snoc have nofit: "\<forall>q \<in> set ps. \<not> fits q" by simp
    show ?thesis
    proof (cases "fits (d, rect)")
      case True
      have "first_best (ps @ [p]) (length ps)"
        using nofit True p by (auto simp: first_best_def nth_append)
      then show ?thesis using None True p by (auto simp: try_fit_None)
    next
      case False
      then show ?thesis using None nofit p by (simp add: try_fit_None)
    qed
  next
    case (Some a)
    obtain m b bd where a: "a = (m, b, bd)" by (cases a)
    from snoc Some a obtain i where i: "first_best ps i" "ps ! i = (bd, b)" "m = short_side (bd, b)"
      by auto
    show ?thesis
    proof (cases "fits (d, rect) \<and> short_side (d, rect) < m")
      case True
      have "first_best (ps @ [p]) (length ps)"
        using i True p unfolding first_best_def
        by (auto simp: nth_append less_Suc_eq)
      then show ?thesis using Some a True p by (auto simp: try_fit_Some)
    next
      case False
      have "first_best (ps @ [p]) i"
        using i False p unfolding first_best_def
        by (auto simp: nth_append less_Suc_eq)
      moreover have "(ps @ [p]) ! i = (bd, b)"
        using i by (simp add: first_best_def nth_append)
      ultimately show ?thesis using Some a False p i(3) by (auto simp: try_fit_Some)
    qed
  qed
qed

lemma search_new_pallet_single:
  "search_new_pallet orientations rect = search_orientations orientations [rect]"
  by (simp add: search_new_pallet_def search_orientations_def)

lemma search_orientations_fold:
  "search_orientations orientations rects =
     fold (\<lambda>(d, rect). try_fit d rect) (List.product orientations rects) None"
  by (simp add: search_orientations_def search_orientations_product)

lemma search_orientations_Some:
  assumes "search_orientations orientations rects = Some (m, rect, d)"
  shows "rect \<in> set rects \<and> d \<in> set orientations \<and> fits (d, rect)"
proof -
  let ?ps = "List.product orientations rects"
  from fold_try_fit_char [of ?ps] assms
  obtain i where "first_best ?ps i" "?ps ! i = (d, rect)"
    by (auto simp: search_orientations_fold)
  then have "(d, rect) \<in> set ?ps" "fits (d, rect)"
    unfolding first_best_def by (metis nth_mem)+
  then show ?thesis by auto
qed

lemma search_orientations_None:
  "search_orientations orientations rects = None \<longleftrightarrow>
     (\<forall>d \<in> set orientations. \<forall>rect \<in> set rects. \<not> fits (d, rect))"
proof
  assume "search_orientations orientations rects = None"
  with fold_try_fit_char [of "List.product orientations rects"]
  show "\<forall>d \<in> set orientations. \<forall>rect \<in> set rects. \<not> fits (d, rect)"
    by (auto simp: search_orientations_fold)
next
  assume no: "\<forall>d \<in> set orientations. \<forall>rect \<in> set rects. \<not> fits (d, rect)"
  show "search_orientations orientations rects = None"
  proof (cases "search_orientations orientations rects")
    case None then show ?thesis .
  next
    case (Some a)
    obtain m rect d where "a = (m, rect, d)" by (cases a)
    with Some search_orientations_Some no show ?thesis by blast
  qed
qed

subsection \<open>One iteration\<close>

text \<open>
  How one iteration changes the state: the product is placed on the current pallet or on
  a new one, at a rect the search found or, when nothing fits the new pallet, at its only
  rect in the first orientation.
\<close>

lemma pack_item_Inr:
  assumes "pack_item orients palet_cfg (pallets, cur) u = Inr (pallets', cur')"
  obtains base rect d where
    "cur' = place base u rect d"
    "(base = cur \<and> pallets' = pallets \<and> weight cur + agirlik u \<le> max_weight palet_cfg) \<or>
     (base = new_pallet palet_cfg \<and> pallets' = emit pallets cur)"
    "(\<exists>m. search_orientations (orients u) (free_rects base) = Some (m, rect, d)) \<or>
     (base = new_pallet palet_cfg \<and> rect \<in> set (free_rects base) \<and>
      search_orientations (orients u) (free_rects base) = None \<and> (\<exists>ds. orients u = d # ds))"
proof -
  have emit_new: "\<And>ps. emit ps (new_pallet palet_cfg) = ps"
    by (simp add: emit_def new_pallet_def)
  have free_new: "\<And>r. free_rects (new_pallet palet_cfg) = [hd (free_rects (new_pallet palet_cfg))]"
    by (simp add: new_pallet_def)
  show thesis
  proof (cases "weight cur + agirlik u > max_weight palet_cfg")
    case True
    show ?thesis
    proof (cases "search_orientations (orients u) (free_rects (new_pallet palet_cfg))")
      case (Some a)
      obtain m rect d where "a = (m, rect, d)" by (cases a)
      with assms True Some show ?thesis
        by (intro that [of "new_pallet palet_cfg" rect d]) (auto simp: pack_item_def)
    next
      case None
      then obtain r0 where r0: "free_rects (new_pallet palet_cfg) = [r0]"
        by (simp add: new_pallet_def)
      with None have N2: "search_new_pallet (orients u) r0 = None"
        by (simp add: search_new_pallet_single)
      from assms True None r0 N2 obtain d ds where "orients u = d # ds"
        by (cases "orients u") (auto simp: pack_item_def)
      with assms True None r0 N2 show ?thesis
        by (intro that [of "new_pallet palet_cfg" r0 d]) (auto simp: pack_item_def emit_new)
    qed
  next
    case False
    show ?thesis
    proof (cases "search_orientations (orients u) (free_rects cur)")
      case (Some a)
      obtain m rect d where "a = (m, rect, d)" by (cases a)
      with assms False Some show ?thesis
        by (intro that [of cur rect d]) (auto simp: pack_item_def)
    next
      case None
      obtain r0 where r0: "free_rects (new_pallet palet_cfg) = [r0]"
        by (simp add: new_pallet_def)
      show ?thesis
      proof (cases "search_new_pallet (orients u) r0")
        case (Some a)
        obtain m rect d where "a = (m, rect, d)" by (cases a)
        with assms False None r0 Some show ?thesis
          by (intro that [of "new_pallet palet_cfg" rect d])
             (auto simp: pack_item_def search_new_pallet_single)
      next
        case N2: None
        from assms False None r0 N2 obtain d ds where "orients u = d # ds"
          by (cases "orients u") (auto simp: pack_item_def)
        with assms False None r0 N2 show ?thesis
          by (intro that [of "new_pallet palet_cfg" r0 d])
             (auto simp: pack_item_def search_new_pallet_single)
      qed
    qed
  qed
qed

lemma place_items:
  "items (place cur u rect d) =
     items cur @ [\<lparr>urun = u, item_x = rect_x rect, item_y = rect_y rect, item_z = rect_z rect,
                   item_L = fst d, item_W = fst (snd d), item_H = snd (snd d)\<rparr>]"
  by (cases d) (simp add: place_def Let_def)

lemma place_weight: "weight (place cur u rect d) = weight cur + agirlik u"
  by (cases d) (simp add: place_def Let_def)


subsection \<open>Invariants of the loop\<close>

text \<open>What holds at the start and is kept by every iteration holds at the end.\<close>

lemma pack_loop_invariant_on:
  assumes step: "\<And>s u s'. I s \<Longrightarrow> u \<in> U \<Longrightarrow> pack_item orients palet_cfg s u = Inr s' \<Longrightarrow> I s'"
  shows "pack_loop orients palet_cfg st urunler = Inr st' \<Longrightarrow> I st \<Longrightarrow> set urunler \<subseteq> U \<Longrightarrow> I st'"
proof (induction urunler arbitrary: st)
  case Nil
  then show ?case by simp
next
  case (Cons u urunler)
  from Cons.prems(1) obtain s1 where s1: "pack_item orients palet_cfg st u = Inr s1"
    and rest: "pack_loop orients palet_cfg s1 urunler = Inr st'"
    by (auto split: sum.splits)
  have "u \<in> U" using Cons.prems(3) by simp
  then have "I s1" using step Cons.prems(2) s1 by blast
  then show ?case using Cons.IH [OF rest] Cons.prems(3) by simp
qed

lemma pack_loop_invariant:
  assumes run: "pack_loop orients palet_cfg st urunler = Inr st'"
    and init: "I st"
    and step: "\<And>s u s'. I s \<Longrightarrow> u \<in> set urunler \<Longrightarrow> pack_item orients palet_cfg s u = Inr s' \<Longrightarrow> I s'"
  shows "I st'"
  using pack_loop_invariant_on [where U = "set urunler" and I = I, OF step run init] by simp

lemma emit_new_pallet: "emit pallets (new_pallet palet_cfg) = pallets"
  by (simp add: emit_def new_pallet_def)

lemma set_emit:
  "set (emit pallets cur) =
     (if items cur = [] then set pallets
      else insert \<lparr>items = items cur, weight = weight cur\<rparr> (set pallets))"
  by (simp add: emit_def)

lemma placed_products_emit:
  "placed_products (emit pallets cur) = placed_products pallets @ map urun (items cur)"
  by (simp add: emit_def placed_products_def)


subsection \<open>Order and conservation\<close>

lemma pack_item_products:
  assumes "pack_item orients palet_cfg (pallets, cur) u = Inr (pallets', cur')"
  shows "placed_products pallets' @ map urun (items cur') =
         placed_products pallets @ map urun (items cur) @ [u]"
  using assms
  by (elim pack_item_Inr)
     (auto simp: place_items placed_products_emit new_pallet_def)

lemma pack_loop_products:
  "pack_loop orients palet_cfg (pallets, cur) urunler = Inr (pallets', cur') \<Longrightarrow>
   placed_products pallets' @ map urun (items cur') =
   placed_products pallets @ map urun (items cur) @ urunler"
proof (induction urunler arbitrary: pallets cur)
  case Nil
  then show ?case by simp
next
  case (Cons u urunler)
  from Cons.prems obtain ps1 c1 where
    s1: "pack_item orients palet_cfg (pallets, cur) u = Inr (ps1, c1)" and
    rest: "pack_loop orients palet_cfg (ps1, c1) urunler = Inr (pallets', cur')"
    by (auto split: sum.splits)
  from Cons.IH [OF rest] pack_item_products [OF s1] show ?case by simp
qed

subsection \<open>No empty pallet\<close>

lemma pack_item_nonempty:
  assumes "pack_item orients palet_cfg (pallets, cur) u = Inr (pallets', cur')"
    and "\<forall>p \<in> set pallets. items p \<noteq> []"
  shows "\<forall>p \<in> set pallets'. items p \<noteq> []"
  using assms by (elim pack_item_Inr) (auto simp: set_emit split: if_splits)

subsection \<open>Weight bookkeeping\<close>


subsection \<open>Weight cap\<close>



subsection \<open>Splitting and pruning\<close>








subsection \<open>Free rects stay inside the pallet\<close>




lemma fits_new_pallet:
  "(\<exists>rect \<in> set (free_rects (new_pallet palet_cfg)). fits (d, rect)) \<longleftrightarrow>
     fits_empty_pallet palet_cfg d"
  by (cases d) (auto simp: new_pallet_def fits_def can_fit_def fits_empty_pallet_def)


subsection \<open>Placed boxes and free rects stay apart\<close>





subsection \<open>Termination without error\<close>

text \<open>The loop returns whenever every product has at least one orientation.\<close>

lemma pack_item_returns:
  assumes "orients u \<noteq> []"
  shows "\<exists>st'. pack_item orients palet_cfg st u = Inr st'"
proof -
  obtain ps cur where st: "st = (ps, cur)" by (cases st)
  obtain d ds where "orients u = d # ds" using assms by (cases "orients u") auto
  then show ?thesis
    by (auto simp: st pack_item_def Let_def new_pallet_def split: option.splits prod.splits)
qed

lemma pack_loop_returns:
  "\<forall>u \<in> set urunler. orients u \<noteq> [] \<Longrightarrow> \<exists>st'. pack_loop orients palet_cfg st urunler = Inr st'"
proof (induction urunler arbitrary: st)
  case Nil
  show ?case by simp
next
  case (Cons u urunler)
  then obtain s1 where "pack_item orients palet_cfg st u = Inr s1"
    using pack_item_returns [of orients u palet_cfg st] by auto
  with Cons show ?case by simp
qed

lemma pack_maximal_rectangles_returns:
  assumes "\<forall>u \<in> set urunler. orients u \<noteq> []"
  shows "\<exists>pallets. pack_maximal_rectangles orients urunler palet_cfg = Inr pallets"
proof -
  from pack_loop_returns [OF assms] obtain st' where
    "pack_loop orients palet_cfg ([], new_pallet palet_cfg) urunler = Inr st'" by blast
  then show ?thesis by (cases st') (simp add: pack_maximal_rectangles_def)
qed

subsection \<open>Pruning\<close>








subsection \<open>The split against the table of the specification\<close>




subsection \<open>The invariants over a whole run\<close>

lemma pack_maximal_rectangles_Inr:
  assumes "pack_maximal_rectangles orients urunler palet_cfg = Inr pallets"
  obtains ps cur where
    "pack_loop orients palet_cfg ([], new_pallet palet_cfg) urunler = Inr (ps, cur)"
    "pallets = emit ps cur"
  using assms by (auto simp: pack_maximal_rectangles_def split: sum.splits)

lemma pack_loop_placed_products:
  assumes "pack_loop orients palet_cfg ([], new_pallet palet_cfg) urunler = Inr (ps, cur)"
  shows "placed_products (emit ps cur) = urunler"
  using pack_loop_products [OF assms]
  by (simp add: placed_products_emit) (simp add: placed_products_def new_pallet_def)


lemma pack_loop_nonempty:
  assumes "pack_loop orients palet_cfg ([], new_pallet palet_cfg) urunler = Inr (ps, cur)"
  shows "\<forall>p \<in> set ps. items p \<noteq> []"
proof -
  have "(\<lambda>(ps, cur). \<forall>p \<in> set ps. items p \<noteq> []) (ps, cur)"
    by (rule pack_loop_invariant [OF assms]) (auto dest: pack_item_nonempty)
  then show ?thesis by simp
qed





subsection \<open>Runs on the concrete inputs\<close>

lemma run_a: "pack_maximal_rectangles possible_orientations_for [cube5, bar7] cfg_a = Inr [pallet_a]"
  by code_simp




subsection \<open>The sibling search for one orientation\<close>

lemma find_best_step_None:
  "find_best_step l w h r None =
     (if can_fit r l w h then Some (short_side ((l, w, h), r), r) else None)"
  by (simp add: find_best_step_def short_side_def)

lemma find_best_step_Some:
  "find_best_step l w h r (Some (m, b)) =
     (if can_fit r l w h \<and>
         (short_side ((l, w, h), r) < m \<or> short_side ((l, w, h), r) = m \<and> volume r < volume b)
      then Some (short_side ((l, w, h), r), r) else Some (m, b))"
  by (auto simp: find_best_step_def short_side_def Let_def)

text \<open>
  \<open>find_best_rectangle\<close> returns the first rect that is least in the order "smaller short
  side residual, then smaller volume": this one breaks ties of the score by volume.
\<close>

lemma find_best_fold_char:
  "(case fold (find_best_step l w h) rects None of
      None \<Rightarrow> \<forall>r \<in> set rects. \<not> can_fit r l w h
    | Some (m, b) \<Rightarrow>
        m = short_side ((l, w, h), b) \<and>
        (\<exists>i < length rects. rects ! i = b \<and> can_fit b l w h \<and>
           (\<forall>j < length rects. can_fit (rects ! j) l w h \<longrightarrow>
              m < short_side ((l, w, h), rects ! j) \<or>
              m = short_side ((l, w, h), rects ! j) \<and> volume b \<le> volume (rects ! j)) \<and>
           (\<forall>j < i. can_fit (rects ! j) l w h \<longrightarrow>
              m < short_side ((l, w, h), rects ! j) \<or>
              m = short_side ((l, w, h), rects ! j) \<and> volume b < volume (rects ! j))))"
proof (induction rects rule: rev_induct)
  case Nil
  show ?case by simp
next
  case (snoc r rects)
  show ?case
  proof (cases "fold (find_best_step l w h) rects None")
    case None
    with snoc have nofit: "\<forall>q \<in> set rects. \<not> can_fit q l w h" by simp
    show ?thesis
    proof (cases "can_fit r l w h")
      case True
      have "\<exists>i < length (rects @ [r]). (rects @ [r]) ! i = r \<and>
           (\<forall>j < length (rects @ [r]). can_fit ((rects @ [r]) ! j) l w h \<longrightarrow>
              short_side ((l, w, h), r) < short_side ((l, w, h), (rects @ [r]) ! j) \<or>
              short_side ((l, w, h), r) = short_side ((l, w, h), (rects @ [r]) ! j) \<and>
              volume r \<le> volume ((rects @ [r]) ! j)) \<and>
           (\<forall>j < i. can_fit ((rects @ [r]) ! j) l w h \<longrightarrow>
              short_side ((l, w, h), r) < short_side ((l, w, h), (rects @ [r]) ! j) \<or>
              short_side ((l, w, h), r) = short_side ((l, w, h), (rects @ [r]) ! j) \<and>
              volume r < volume ((rects @ [r]) ! j))"
        using nofit by (intro exI [of _ "length rects"]) (auto simp: nth_append less_Suc_eq)
      then show ?thesis using None True by (simp add: find_best_step_None)
    next
      case False
      then show ?thesis using None nofit by (simp add: find_best_step_None)
    qed
  next
    case (Some a)
    obtain m b where a: "a = (m, b)" by (cases a)
    from snoc Some a obtain i where m: "m = short_side ((l, w, h), b)" and
      i: "i < length rects" "rects ! i = b" "can_fit b l w h"
        "\<forall>j < length rects. can_fit (rects ! j) l w h \<longrightarrow>
              m < short_side ((l, w, h), rects ! j) \<or>
              m = short_side ((l, w, h), rects ! j) \<and> volume b \<le> volume (rects ! j)"
        "\<forall>j < i. can_fit (rects ! j) l w h \<longrightarrow>
              m < short_side ((l, w, h), rects ! j) \<or>
              m = short_side ((l, w, h), rects ! j) \<and> volume b < volume (rects ! j)"
      by auto
    let ?s = "short_side ((l, w, h), r)"
    show ?thesis
    proof (cases "can_fit r l w h \<and> (?s < m \<or> ?s = m \<and> volume r < volume b)")
      case True
      have "\<forall>j < length rects. can_fit (rects ! j) l w h \<longrightarrow>
              ?s < short_side ((l, w, h), rects ! j) \<or>
              ?s = short_side ((l, w, h), rects ! j) \<and> volume r < volume (rects ! j)"
        using True i(4) by force
      then have "\<exists>k < length (rects @ [r]). (rects @ [r]) ! k = r \<and>
           (\<forall>j < length (rects @ [r]). can_fit ((rects @ [r]) ! j) l w h \<longrightarrow>
              ?s < short_side ((l, w, h), (rects @ [r]) ! j) \<or>
              ?s = short_side ((l, w, h), (rects @ [r]) ! j) \<and>
              volume r \<le> volume ((rects @ [r]) ! j)) \<and>
           (\<forall>j < k. can_fit ((rects @ [r]) ! j) l w h \<longrightarrow>
              ?s < short_side ((l, w, h), (rects @ [r]) ! j) \<or>
              ?s = short_side ((l, w, h), (rects @ [r]) ! j) \<and>
              volume r < volume ((rects @ [r]) ! j))"
        by (intro exI [of _ "length rects"]) (auto simp: nth_append less_Suc_eq)
      then show ?thesis using Some a True by (simp add: find_best_step_Some)
    next
      case False
      have "\<forall>j < length (rects @ [r]). can_fit ((rects @ [r]) ! j) l w h \<longrightarrow>
              m < short_side ((l, w, h), (rects @ [r]) ! j) \<or>
              m = short_side ((l, w, h), (rects @ [r]) ! j) \<and>
              volume b \<le> volume ((rects @ [r]) ! j)"
        using False i(4) by (auto simp: nth_append less_Suc_eq)
      moreover have "\<forall>j < i. can_fit ((rects @ [r]) ! j) l w h \<longrightarrow>
              m < short_side ((l, w, h), (rects @ [r]) ! j) \<or>
              m = short_side ((l, w, h), (rects @ [r]) ! j) \<and>
              volume b < volume ((rects @ [r]) ! j)"
        using i(1,5) by (auto simp: nth_append)
      moreover have "i < length (rects @ [r])" "(rects @ [r]) ! i = b"
        using i(1,2) by (simp_all add: nth_append)
      ultimately have "\<exists>k < length (rects @ [r]). (rects @ [r]) ! k = b \<and> can_fit b l w h \<and>
           (\<forall>j < length (rects @ [r]). can_fit ((rects @ [r]) ! j) l w h \<longrightarrow>
              m < short_side ((l, w, h), (rects @ [r]) ! j) \<or>
              m = short_side ((l, w, h), (rects @ [r]) ! j) \<and>
              volume b \<le> volume ((rects @ [r]) ! j)) \<and>
           (\<forall>j < k. can_fit ((rects @ [r]) ! j) l w h \<longrightarrow>
              m < short_side ((l, w, h), (rects @ [r]) ! j) \<or>
              m = short_side ((l, w, h), (rects @ [r]) ! j) \<and>
              volume b < volume ((rects @ [r]) ! j))"
        using i(3) by blast
      moreover have "find_best_step l w h r (Some (m, b)) = Some (m, b)"
        unfolding find_best_step_Some by (rule if_not_P) (rule False)
      ultimately show ?thesis using Some a m by simp
    qed
  qed
qed

subsection \<open>The free rects of a pallet never repeat\<close>

text \<open>
  The test of the pruning compares positions, so two equal rects in its input remove each
  other. The split never produces such a list: in a list where no rect lies in another,
  the residuals of different rects differ.
\<close>

lemma prune_drops_equal_rects: "remove_redundant_rectangles [r, r] = []"
  by (simp add: remove_redundant_rectangles_def is_contained_def inside_def)













section \<open>The claims\<close>

text \<open>
  The packer raises only when a product has no orientation at all
  (\<open>pack_maximal_rectangles_returns\<close>); the statements below are about the pallet list
  it returns.
\<close>

subsection \<open>C1: placements and the pallet cuboid\<close>




subsection \<open>C2: a product that fits nowhere\<close>

text \<open>
  C2 says that a product that fits no orientation in any free rect of the current pallet
  nor on a new pallet is recorded as unplaced and appears in no pallet. The packer has
  no unplaced record: the 120 x 50 x 50 product, which fits the 100 x 100 x 100 pallet
  in neither of its orientations, is returned on a pallet.
\<close>

theorem unplaced_counterexample:
  "possible_orientations_for long120 = [(120, 50, 50), (50, 120, 50)] \<and>
   \<not> fits_empty_pallet cfg_b (120, 50, 50) \<and>
   \<not> fits_empty_pallet cfg_b (50, 120, 50) \<and>
   pack_maximal_rectangles possible_orientations_for [long120] cfg_b =
     Inr [\<lparr>items = [Box long120 0 0 0 120 50 50], weight = 10\<rparr>] \<and>
   placed_products [\<lparr>items = [Box long120 0 0 0 120 50 50], weight = 10\<rparr>] = [long120]"
  by code_simp

text \<open>
  C2, amended: when a product fits no orientation in any free rect of the current pallet
  and no orientation on a new pallet, the packer closes the current pallet (if it has
  items), opens a new one and places the product there all the same, at \<open>(0, 0, 0)\<close> in
  its first orientation; it then continues with the remaining products.
\<close>

theorem unfit_product_is_placed_on_new_pallet:
  assumes nofit: "\<forall>d \<in> set (orients u). \<forall>r \<in> set (free_rects cur). \<not> fits (d, r)"
    and nofit_new: "\<forall>d \<in> set (orients u). \<not> fits_empty_pallet palet_cfg d"
    and first: "orients u = d0 # ds"
  shows "\<exists>cur'.
     pack_item orients palet_cfg (pallets, cur) u = Inr (emit pallets cur, cur') \<and>
     items cur' = [\<lparr>urun = u, item_x = 0, item_y = 0, item_z = 0,
                    item_L = fst d0, item_W = fst (snd d0), item_H = snd (snd d0)\<rparr>] \<and>
     weight cur' = agirlik u \<and>
     pack_loop orients palet_cfg (pallets, cur) (u # rest) =
       pack_loop orients palet_cfg (emit pallets cur, cur') rest"
proof -
  let ?r0 = "\<lparr>rect_x = 0, rect_y = 0, rect_z = 0, rect_length = cfg_length palet_cfg,
              rect_width = cfg_width palet_cfg, rect_height = cfg_height palet_cfg\<rparr>"
  let ?cur' = "place (new_pallet palet_cfg) u ?r0 d0"
  have free_new: "free_rects (new_pallet palet_cfg) = [?r0]"
    by (simp add: new_pallet_def)
  have none_cur: "search_orientations (orients u) (free_rects cur) = None"
    using nofit by (simp add: search_orientations_None)
  have "\<forall>d \<in> set (orients u). \<forall>r \<in> set (free_rects (new_pallet palet_cfg)). \<not> fits (d, r)"
    using nofit_new fits_new_pallet [of palet_cfg] by blast
  then have none_new: "search_orientations (orients u) [?r0] = None"
    by (simp add: search_orientations_None free_new)
  have step: "pack_item orients palet_cfg (pallets, cur) u = Inr (emit pallets cur, ?cur')"
    using none_cur none_new first
    by (simp add: pack_item_def free_new search_new_pallet_single emit_new_pallet)
  moreover have "items ?cur' = [\<lparr>urun = u, item_x = 0, item_y = 0, item_z = 0,
                    item_L = fst d0, item_W = fst (snd d0), item_H = snd (snd d0)\<rparr>]"
    by (simp add: place_items new_pallet_def)
  moreover have "weight ?cur' = agirlik u"
    by (simp add: place_weight new_pallet_def)
  moreover have "pack_loop orients palet_cfg (pallets, cur) (u # rest) =
       pack_loop orients palet_cfg (emit pallets cur, ?cur') rest"
    by (simp add: step)
  ultimately show ?thesis by blast
qed

theorem unfit_product_is_placed_on_new_pallet_witness:
  "possible_orientations_for long120 = [(120, 50, 50), (50, 120, 50)] \<and>
   \<not> fits_empty_pallet cfg_b (120, 50, 50) \<and>
   \<not> fits_empty_pallet cfg_b (50, 120, 50) \<and>
   (\<exists>cur'.
      pack_item possible_orientations_for cfg_b ([], new_pallet cfg_b) long120 = Inr ([], cur') \<and>
      items cur' = [Box long120 0 0 0 120 50 50] \<and>
      weight cur' = 10)"
proof -
  have os: "possible_orientations_for long120 = [(120, 50, 50), (50, 120, 50)]"
    by code_simp
  have new: "\<not> fits_empty_pallet cfg_b (120, 50, 50)" "\<not> fits_empty_pallet cfg_b (50, 120, 50)"
    by code_simp+
  have h1: "\<forall>d \<in> set (possible_orientations_for long120).
      \<forall>r \<in> set (free_rects (new_pallet cfg_b)). \<not> fits (d, r)"
    by code_simp
  have h2: "\<forall>d \<in> set (possible_orientations_for long120). \<not> fits_empty_pallet cfg_b d"
    using new by (simp add: os)
  have w: "agirlik long120 = 10"
    by code_simp
  from unfit_product_is_placed_on_new_pallet
    [where orients = possible_orientations_for and u = long120 and cur = "new_pallet cfg_b"
       and palet_cfg = cfg_b and pallets = "[]" and rest = "[]", OF h1 h2 os]
  obtain cur' where
    "pack_item possible_orientations_for cfg_b ([], new_pallet cfg_b) long120 = Inr ([], cur')"
    "items cur' = [Box long120 0 0 0 120 50 50]" "weight cur' = 10"
    by (auto simp: emit_new_pallet Box_def w)
  with os new show ?thesis by blast
qed

subsection \<open>C3: the weight cap\<close>




subsection \<open>C4: no overlap\<close>



subsection \<open>C5: order and conservation\<close>

text \<open>
  C5: the packer does not reorder its input. The products of the returned pallets, read
  pallet by pallet and placement by placement, are the input list: each product once, in
  the input order. No product is left out, so the number of placements is the number of
  products.
\<close>

theorem packer_keeps_input_order:
  assumes "pack_maximal_rectangles orients urunler palet_cfg = Inr pallets"
  shows "map urun (concat (map items pallets)) = urunler \<and>
         length (concat (map items pallets)) = length urunler"
proof -
  from assms obtain ps cur where
    run: "pack_loop orients palet_cfg ([], new_pallet palet_cfg) urunler = Inr (ps, cur)" and
    res: "pallets = emit ps cur"
    by (rule pack_maximal_rectangles_Inr)
  have "placed_products pallets = urunler"
    unfolding res using run by (rule pack_loop_placed_products)
  then have eq: "map urun (concat (map items pallets)) = urunler"
    by (simp add: placed_products_def)
  then have "length (concat (map items pallets)) = length urunler"
    by (metis length_map)
  with eq show ?thesis by simp
qed

theorem packer_keeps_input_order_witness:
  "pack_maximal_rectangles possible_orientations_for [cube5, bar7] cfg_a = Inr [pallet_a] \<and>
   map urun (concat (map items [pallet_a])) = [cube5, bar7] \<and>
   length (concat (map items [pallet_a])) = 2"
  using packer_keeps_input_order [OF run_a] run_a by simp

subsection \<open>C6: the best-fit search\<close>




subsection \<open>C7: the split\<close>



subsection \<open>C8: the pruning\<close>




subsection \<open>C9: no empty pallet\<close>

text \<open>
  C9: no returned pallet has an empty items list, for every input; on the empty product
  list the packer returns the empty pallet list.
\<close>

theorem no_empty_pallet:
  "(pack_maximal_rectangles orients urunler palet_cfg = Inr pallets \<longrightarrow>
      (\<forall>p \<in> set pallets. items p \<noteq> [])) \<and>
   pack_maximal_rectangles orients [] palet_cfg = Inr []"
proof
  show "pack_maximal_rectangles orients urunler palet_cfg = Inr pallets \<longrightarrow>
      (\<forall>p \<in> set pallets. items p \<noteq> [])"
  proof
    assume "pack_maximal_rectangles orients urunler palet_cfg = Inr pallets"
    then obtain ps cur where
      run: "pack_loop orients palet_cfg ([], new_pallet palet_cfg) urunler = Inr (ps, cur)" and
      res: "pallets = emit ps cur"
      by (rule pack_maximal_rectangles_Inr)
    from pack_loop_nonempty [OF run] show "\<forall>p \<in> set pallets. items p \<noteq> []"
      by (auto simp: res set_emit split: if_splits)
  qed
  show "pack_maximal_rectangles orients [] palet_cfg = Inr []"
    by (simp add: pack_maximal_rectangles_def emit_new_pallet)
qed

theorem no_empty_pallet_witness:
  "pack_maximal_rectangles possible_orientations_for [cube5, bar7] cfg_a = Inr [pallet_a] \<and>
   items pallet_a \<noteq> [] \<and>
   pack_maximal_rectangles possible_orientations_for [] cfg_a = Inr []"
  using no_empty_pallet [of possible_orientations_for "[cube5, bar7]" cfg_a "[pallet_a]"] run_a
  by simp

subsection \<open>C10: the weight field\<close>



end
